theory Spec2Isabelle
  imports Complex_Main "HOL-Library.Sublist" "HOL-Library.AList"
begin

section \<open>Strings and paths\<close>

text \<open>
  Python strings are modelled as \<open>string\<close>. A path is the list of its components;
  \<open>str_path\<close> is \<open>str(Path(...))\<close> with the POSIX separator. No pattern of the
  selector contains a separator, so the choice of separator does not change a match.
\<close>

type_synonym path = "string list"

text \<open>\<open>sub in s\<close> on Python strings: \<open>sub\<close> occurs in \<open>s\<close> as a contiguous run.\<close>

fun str_in :: "string \<Rightarrow> string \<Rightarrow> bool" where
  "str_in sub [] = (sub = [])"
| "str_in sub (c # cs) = (prefix sub (c # cs) \<or> str_in sub cs)"

text \<open>\<open>str.lower()\<close> on the ASCII letters.\<close>

definition lower_char :: "char \<Rightarrow> char" where
  "lower_char c =
     (case map_of (zip ''ABCDEFGHIJKLMNOPQRSTUVWXYZ'' ''abcdefghijklmnopqrstuvwxyz'') c of
        None \<Rightarrow> c
      | Some l \<Rightarrow> l)"

definition lower :: "string \<Rightarrow> string" where
  "lower s = map lower_char s"

definition endswith :: "string \<Rightarrow> string \<Rightarrow> bool" where
  "endswith s suf = suffix suf s"

text \<open>\<open>s[:-2]\<close>: all but the last two characters, empty for a shorter string.\<close>

definition drop_last2 :: "string \<Rightarrow> string" where
  "drop_last2 s = take (length s - 2) s"

fun str_path :: "path \<Rightarrow> string" where
  "str_path [] = ''.''"
| "str_path [c] = c"
| "str_path (c # cs) = c @ ''/'' @ str_path cs"

section \<open>Exceptions and log records\<close>

datatype error =
    KeyError string
  | OSError path
  | TypeError
  | JSONDecodeError

datatype log_entry =
    ErrorLoadingConfig error
  | VerificationFailed error
  | ErrorCopying string error
  | ErrorBackingUp string error
  | RemovedOldBackup path
  | ErrorCleaningUp error
  | SourceDoesNotExist path
  | ErrorRestoring path error
  | FailedToRestore string error

section \<open>Configuration\<close>

text \<open>
  The fields of \<open>self.config\<close> at the types the built-in default gives them. The two
  nested dictionaries keep their insertion order and their string keys.
\<close>

record config =
  max_workers :: int
  verify_copies :: bool
  compression :: bool
  retention_days :: int
  excluded_files :: "string list"
  browsers :: "(string \<times> bool) list"
  backup_options :: "(string \<times> bool) list"

section \<open>FileSelector: \<open>_should_backup_file\<close>\<close>

definition get_browser_data_patterns :: "(string \<times> (string \<times> string list) list) list" where
  "get_browser_data_patterns =
    [(''chrome_based'',
        [(''bookmarks'', [''Bookmarks'', ''Bookmarks.bak'']),
         (''history'', [''History'', ''Visited Links'']),
         (''passwords'', [''Login Data'', ''Login Data-journal'']),
         (''extensions'', [''Extensions/*'']),
         (''cookies'', [''Cookies'', ''Cookies-journal'']),
         (''preferences'', [''Preferences'', ''Secure Preferences''])]),
     (''firefox'',
        [(''bookmarks'', [''places.sqlite'', ''bookmarkbackups/*'']),
         (''history'', [''places.sqlite'', ''places.sqlite-wal'']),
         (''passwords'', [''logins.json'', ''key4.db'']),
         (''extensions'', [''extensions/*'', ''extensions.json'']),
         (''cookies'', [''cookies.sqlite'']),
         (''preferences'', [''prefs.js'', ''user.js''])]),
     (''opera'',
        [(''bookmarks'', [''Bookmarks'', ''Bookmarks.bak'']),
         (''history'', [''History'', ''Visited Links'']),
         (''passwords'', [''Login Data'', ''Login Data-journal'']),
         (''extensions'', [''Extensions/*'']),
         (''cookies'', [''Cookies'', ''Cookies-journal'']),
         (''preferences'', [''Preferences''])]),
     (''operagx'',
        [(''bookmarks'', [''Bookmarks'', ''Bookmarks.bak'']),
         (''history'', [''History'', ''Visited Links'']),
         (''passwords'', [''Login Data'', ''Login Data-journal'']),
         (''extensions'', [''Extensions/*'']),
         (''cookies'', [''Cookies'', ''Cookies-journal'']),
         (''preferences'', [''Preferences'', ''GX Settings''])])]"

definition browser_family :: "string \<Rightarrow> string" where
  "browser_family browser_type =
     (if str_in ''firefox'' (lower browser_type) then ''firefox''
      else if str_in ''opera'' (lower browser_type) then ''opera''
      else ''chrome_based'')"

text \<open>The inner loop over the patterns of one data type: does one of them match?\<close>

fun match_patterns :: "string list \<Rightarrow> string \<Rightarrow> bool" where
  "match_patterns [] file_name = False"
| "match_patterns (pattern # rest) file_name =
     (if endswith pattern ''/*''
      then (if str_in (drop_last2 pattern) file_name then True
            else match_patterns rest file_name)
      else if str_in pattern file_name then True
      else match_patterns rest file_name)"

text \<open>
  The loop over \<open>backup_options.items()\<close>. The subscript
  \<open>patterns[browser_family][data_type]\<close> raises \<open>KeyError\<close> for a key that the
  pattern table does not have.
\<close>

fun scan_options ::
  "(string \<times> (string \<times> string list) list) list \<Rightarrow> string \<Rightarrow> (string \<times> bool) list \<Rightarrow> string
     \<Rightarrow> error + bool" where
  "scan_options patterns family [] file_name = Inr False"
| "scan_options patterns family ((data_type, enabled) # rest) file_name =
     (if \<not> enabled then scan_options patterns family rest file_name
      else case map_of patterns family of
             None \<Rightarrow> Inl (KeyError family)
           | Some by_type \<Rightarrow>
               (case map_of by_type data_type of
                  None \<Rightarrow> Inl (KeyError data_type)
                | Some patterns_for_type \<Rightarrow>
                    if match_patterns patterns_for_type file_name then Inr True
                    else scan_options patterns family rest file_name))"

definition should_backup_file :: "config \<Rightarrow> string \<Rightarrow> string \<Rightarrow> error + bool" where
  "should_backup_file cfg file_name browser_type =
     (let patterns = get_browser_data_patterns;
          family = browser_family browser_type
      in if \<not> list_ex (\<lambda>v. v) (map snd (backup_options cfg)) then Inr True
         else scan_options patterns family (backup_options cfg) file_name)"

section \<open>The file system and its faults\<close>

text \<open>
  The world the scripts act on: the regular files with their contents (an association
  list, whose order is the order in which the operating system lists them), the
  directories, and the log written so far.
\<close>

record world =
  files :: "(path \<times> string) list"
  dirs :: "path list"
  log :: "log_entry list"

text \<open>
  What the operating system and the libraries may do to a call is a parameter: whether
  \<open>shutil.copy2\<close> of a source file raises or silently writes other bytes, whether
  \<open>mkdir\<close>, \<open>open\<close>, \<open>stat\<close>, a directory listing or \<open>shutil.rmtree\<close>
  raises on a path, the modification time of a directory and the digest function.
  Time stamps are real numbers; the rounding of the floating-point subtraction is not
  modelled.
\<close>

datatype fault = Raises | Writes string

record env =
  sha256 :: "string \<Rightarrow> string"
  copy_fault :: "path \<Rightarrow> fault option"
  mkdir_fault :: "path \<Rightarrow> bool"
  open_fault :: "path \<Rightarrow> bool"
  stat_fault :: "path \<Rightarrow> bool"
  listing_fault :: "path \<Rightarrow> bool"
  rmtree_fault :: "path \<Rightarrow> bool"
  mtime :: "path \<Rightarrow> real"

definition is_file :: "world \<Rightarrow> path \<Rightarrow> bool" where
  "is_file w p = (map_of (files w) p \<noteq> None)"

definition is_dir :: "world \<Rightarrow> path \<Rightarrow> bool" where
  "is_dir w p = (p \<in> set (dirs w))"

definition path_exists :: "world \<Rightarrow> path \<Rightarrow> bool" where
  "path_exists w p = (is_dir w p \<or> is_file w p)"

definition add_log :: "log_entry \<Rightarrow> world \<Rightarrow> world" where
  "add_log e w = w\<lparr>log := log w @ [e]\<rparr>"

text \<open>\<open>Path.mkdir(parents=True, exist_ok=True)\<close>\<close>

definition mkdir_parents :: "env \<Rightarrow> world \<Rightarrow> path \<Rightarrow> error + world" where
  "mkdir_parents e w p =
     (if mkdir_fault e p then Inl (OSError p)
      else Inr (w\<lparr>dirs := dirs w @ filter (\<lambda>d. d \<notin> set (dirs w)) (prefixes p)\<rparr>))"

definition write_file :: "world \<Rightarrow> path \<Rightarrow> string \<Rightarrow> world" where
  "write_file w p c = w\<lparr>files := AList.update p c (files w)\<rparr>"

text \<open>\<open>shutil.copy2(src, dst)\<close>\<close>

definition copy2 :: "env \<Rightarrow> world \<Rightarrow> path \<Rightarrow> path \<Rightarrow> error + world" where
  "copy2 e w src dst =
     (case map_of (files w) src of
        None \<Rightarrow> Inl (OSError src)
      | Some content \<Rightarrow>
          (case copy_fault e src of
             Some Raises \<Rightarrow> Inl (OSError src)
           | Some (Writes c) \<Rightarrow> Inr (write_file w dst c)
           | None \<Rightarrow> Inr (write_file w dst content)))"

text \<open>\<open>open(p, "rb").read()\<close>\<close>

definition read_file :: "env \<Rightarrow> world \<Rightarrow> path \<Rightarrow> error + string" where
  "read_file e w p =
     (if open_fault e p then Inl (OSError p)
      else case map_of (files w) p of None \<Rightarrow> Inl (OSError p) | Some c \<Rightarrow> Inr c)"

text \<open>\<open>shutil.rmtree(d)\<close>: the directory and everything below it goes.\<close>

definition rmtree :: "env \<Rightarrow> world \<Rightarrow> path \<Rightarrow> error + world" where
  "rmtree e w d =
     (if rmtree_fault e d then Inl (OSError d)
      else Inr (w\<lparr>files := filter (\<lambda>(p, c). \<not> prefix d p) (files w),
                  dirs := filter (\<lambda>x. \<not> prefix d x) (dirs w)\<rparr>))"

text \<open>
  \<open>os.walk(source)\<close> as the pairs \<open>(walk_root, file)\<close> that the two nested loops of the
  source visit: every regular file below \<open>source\<close>, with the directory it lies in.
\<close>

definition walk :: "world \<Rightarrow> path \<Rightarrow> (path \<times> string) list" where
  "walk w source =
     map (\<lambda>p. (butlast p, last p)) (filter (\<lambda>p. strict_prefix source p) (map fst (files w)))"

text \<open>\<open>source_path.rglob("*")\<close> restricted to regular files.\<close>

definition rglob_files :: "world \<Rightarrow> path \<Rightarrow> path list" where
  "rglob_files w source_path = filter (\<lambda>p. strict_prefix source_path p) (map fst (files w))"

text \<open>\<open>root.iterdir()\<close>: the immediate children of a directory.\<close>

definition iterdir :: "world \<Rightarrow> path \<Rightarrow> path list" where
  "iterdir w parent =
     filter (\<lambda>p. p \<noteq> [] \<and> butlast p = parent) (dirs w @ map fst (files w))"

section \<open>CopyEngine: \<open>verify_copy\<close> and \<open>backup_browser\<close>\<close>

definition verify_copy :: "config \<Rightarrow> env \<Rightarrow> world \<Rightarrow> path \<Rightarrow> path \<Rightarrow> bool \<times> world" where
  "verify_copy cfg e w source destination =
     (if \<not> verify_copies cfg then (True, w)
      else case read_file e w source of
             Inl ex \<Rightarrow> (False, add_log (VerificationFailed ex) w)
           | Inr sf \<Rightarrow>
               (case read_file e w destination of
                  Inl ex \<Rightarrow> (False, add_log (VerificationFailed ex) w)
                | Inr df \<Rightarrow> (sha256 e sf = sha256 e df, w)))"

definition is_excluded :: "config \<Rightarrow> string \<Rightarrow> bool" where
  "is_excluded cfg s = list_ex (\<lambda>excluded. str_in excluded s) (excluded_files cfg)"

text \<open>The \<open>try\<close> block around one file (lines 265 to 272).\<close>

definition copy_file ::
  "config \<Rightarrow> env \<Rightarrow> string \<Rightarrow> path \<Rightarrow> path \<Rightarrow> path \<Rightarrow> bool \<times> world \<Rightarrow> bool \<times> world" where
  "copy_file cfg e file src_file dest_dir dst_file st =
     (case st of (success, w) \<Rightarrow>
        (case mkdir_parents e w dest_dir of
           Inl ex \<Rightarrow> (success, add_log (ErrorCopying file ex) w)
         | Inr w1 \<Rightarrow>
             (case copy2 e w1 src_file dst_file of
                Inl ex \<Rightarrow> (success, add_log (ErrorCopying file ex) w1)
              | Inr w2 \<Rightarrow>
                  (case verify_copy cfg e w2 src_file dst_file of
                     (verified, w3) \<Rightarrow> (if verified then True else success, w3)))))"

text \<open>
  The loops over \<open>os.walk(source_path)\<close> and \<open>files\<close>. The first component of the
  result is the exception that left the loop, if one did.
\<close>

fun copy_files ::
  "config \<Rightarrow> env \<Rightarrow> string \<Rightarrow> path \<Rightarrow> path \<Rightarrow> (path \<times> string) list \<Rightarrow> bool \<times> world
     \<Rightarrow> error option \<times> bool \<times> world" where
  "copy_files cfg e browser_name source dest [] st = (None, st)"
| "copy_files cfg e browser_name source dest ((walk_root, file) # rest) st =
     (let rel_path = drop (length source) walk_root;
          dest_dir = dest @ rel_path
      in if is_excluded cfg file then copy_files cfg e browser_name source dest rest st
         else case should_backup_file cfg (str_path (rel_path @ [file])) browser_name of
                Inl ex \<Rightarrow> (Some ex, st)
              | Inr False \<Rightarrow> copy_files cfg e browser_name source dest rest st
              | Inr True \<Rightarrow>
                  copy_files cfg e browser_name source dest rest
                    (copy_file cfg e file (walk_root @ [file]) dest_dir (dest_dir @ [file]) st))"

text \<open>The count for the progress bar: it calls the selector on the bare file name.\<close>

fun count_files :: "config \<Rightarrow> string \<Rightarrow> string list \<Rightarrow> error + nat" where
  "count_files cfg browser_name [] = Inr 0"
| "count_files cfg browser_name (f # fs) =
     (case should_backup_file cfg f browser_name of
        Inl ex \<Rightarrow> Inl ex
      | Inr b \<Rightarrow>
          (case count_files cfg browser_name fs of
             Inl ex \<Rightarrow> Inl ex
           | Inr n \<Rightarrow> Inr (if b then n + 1 else n)))"

text \<open>\<open>source.name\<close>: the last component, empty for the root.\<close>

definition path_name :: "path \<Rightarrow> path" where
  "path_name p = (if p = [] then [] else [last p])"

fun backup_sources ::
  "config \<Rightarrow> env \<Rightarrow> path \<Rightarrow> string \<Rightarrow> path list \<Rightarrow> bool \<times> world \<Rightarrow> error option \<times> bool \<times> world"
  where
  "backup_sources cfg e browser_backup_dir browser_name [] st = (None, st)"
| "backup_sources cfg e browser_backup_dir browser_name (source # rest) (success, w) =
     (if stat_fault e source then (Some (OSError source), success, w)
      else if \<not> path_exists w source
      then backup_sources cfg e browser_backup_dir browser_name rest (success, w)
      else (case mkdir_parents e w (browser_backup_dir @ path_name source) of
              Inl ex \<Rightarrow> (Some ex, success, w)
            | Inr w1 \<Rightarrow>
                (case count_files cfg browser_name (map snd (walk w1 source)) of
                   Inl ex \<Rightarrow> (Some ex, success, w1)
                 | Inr total_files \<Rightarrow>
                     (case copy_files cfg e browser_name source
                             (browser_backup_dir @ path_name source) (walk w1 source)
                             (success, w1) of
                        (raised, st') \<Rightarrow>
                          (case raised of
                             Some ex \<Rightarrow> (Some ex, st')
                           | None \<Rightarrow>
                               backup_sources cfg e browser_backup_dir browser_name rest
                                 st')))))"

definition backup_browser ::
  "config \<Rightarrow> env \<Rightarrow> path \<Rightarrow> string \<Rightarrow> path list \<Rightarrow> world \<Rightarrow> bool \<times> world" where
  "backup_browser cfg e backup_root browser_name source_paths w =
     (case backup_sources cfg e (backup_root @ [browser_name]) browser_name source_paths
             (False, w) of
        (None, success, w') \<Rightarrow> (success, w')
      | (Some ex, success, w') \<Rightarrow> (success, add_log (ErrorBackingUp browser_name ex) w'))"

section \<open>PathCatalog: \<open>_validate_paths\<close>\<close>

definition validate_paths ::
  "config \<Rightarrow> world \<Rightarrow> (string \<times> path list) list \<Rightarrow> (string \<times> path list) list" where
  "validate_paths cfg w paths =
     fold (\<lambda>(browser, path_list) validated_paths.
             if \<not> (case map_of (browsers cfg) browser of None \<Rightarrow> True | Some b \<Rightarrow> b)
             then validated_paths
             else AList.update browser
                    (filter (\<lambda>path. path_exists w path \<and> \<not> is_excluded cfg (str_path path))
                       path_list)
                    validated_paths)
          paths []"

section \<open>RetentionSweeper: \<open>cleanup_old_backups\<close>\<close>

fun sweep :: "env \<Rightarrow> real \<Rightarrow> real \<Rightarrow> path list \<Rightarrow> world \<Rightarrow> error option \<times> world" where
  "sweep e current_time retention_seconds [] w = (None, w)"
| "sweep e current_time retention_seconds (backup_dir # rest) w =
     (if is_dir w backup_dir then
        (if stat_fault e backup_dir then (Some (OSError backup_dir), w)
         else if current_time - mtime e backup_dir > retention_seconds then
           (case rmtree e w backup_dir of
              Inl ex \<Rightarrow> (Some ex, w)
            | Inr w1 \<Rightarrow>
                sweep e current_time retention_seconds rest
                  (add_log (RemovedOldBackup backup_dir) w1))
         else sweep e current_time retention_seconds rest w)
      else sweep e current_time retention_seconds rest w)"

definition cleanup_old_backups :: "config \<Rightarrow> env \<Rightarrow> real \<Rightarrow> path \<Rightarrow> world \<Rightarrow> world" where
  "cleanup_old_backups cfg e current_time backup_root w =
     (let retention_seconds = retention_days cfg * 24 * 60 * 60
      in if stat_fault e backup_root then add_log (ErrorCleaningUp (OSError backup_root)) w
         else if \<not> path_exists w backup_root then w
         else if listing_fault e backup_root
         then add_log (ErrorCleaningUp (OSError backup_root)) w
         else case sweep e current_time (of_int retention_seconds) (iterdir w backup_root) w of
                (None, w') \<Rightarrow> w'
              | (Some ex, w') \<Rightarrow> add_log (ErrorCleaningUp ex) w')"

section \<open>TaskScheduler: the results of \<open>run\<close>\<close>



section \<open>Configuration file: \<open>load_config\<close>\<close>

datatype json =
    JNull
  | JBool bool
  | JInt int
  | JStr string
  | JArr "json list"
  | JObj "(string \<times> json) list"

definition default_config :: "(string \<times> json) list" where
  "default_config =
    [(''max_workers'', JInt 4),
     (''verify_copies'', JBool True),
     (''compression'', JBool True),
     (''retention_days'', JInt 30),
     (''excluded_files'',
        JArr [JStr ''.lock'', JStr ''Cache'', JStr ''GPUCache'', JStr ''CacheDictionary'']),
     (''browsers'',
        JObj [(''chrome'', JBool True), (''firefox'', JBool True), (''edge'', JBool True),
              (''brave'', JBool True), (''opera'', JBool True), (''vivaldi'', JBool True)]),
     (''backup_options'',
        JObj [(''bookmarks'', JBool True), (''history'', JBool True),
              (''passwords'', JBool True), (''extensions'', JBool True),
              (''cookies'', JBool True), (''preferences'', JBool True)])]"

text \<open>
  What \<open>load_config\<close> finds at the configuration path: no file, a file that cannot be
  opened, a file that is not JSON, or the value that \<open>json.load\<close> returns.
\<close>

datatype config_file = Missing | OpenFails | NotJSON | Loaded json

text \<open>\<open>{**d, **loaded}\<close>: later keys replace earlier ones in place, new keys go last.\<close>

definition dict_merge :: "(string \<times> json) list \<Rightarrow> (string \<times> json) list \<Rightarrow> (string \<times> json) list"
  where
  "dict_merge d loaded = fold (\<lambda>(k, v). AList.update k v) loaded d"

text \<open>
  The result is \<open>self.config\<close> and the log lines written. \<open>write_fails\<close> says whether
  writing the default file raises when the file is missing.
\<close>

definition load_config :: "config_file \<Rightarrow> bool \<Rightarrow> (string \<times> json) list \<times> log_entry list" where
  "load_config cf write_fails =
     (case cf of
        Loaded (JObj loaded) \<Rightarrow> (dict_merge default_config loaded, [])
      | Loaded _ \<Rightarrow> (default_config, [ErrorLoadingConfig TypeError])
      | NotJSON \<Rightarrow> (default_config, [ErrorLoadingConfig JSONDecodeError])
      | OpenFails \<Rightarrow> (default_config, [ErrorLoadingConfig (OSError [''config'', ''browser_backup_config.json''])])
      | Missing \<Rightarrow>
          (if write_fails
           then (default_config, [ErrorLoadingConfig (OSError [''config'', ''browser_backup_config.json''])])
           else (default_config, [])))"

section \<open>RestoreEngine: \<open>restore_browser\<close>\<close>

fun restore_files :: "env \<Rightarrow> path \<Rightarrow> path \<Rightarrow> path list \<Rightarrow> world \<Rightarrow> world" where
  "restore_files e source_path dest_path [] w = w"
| "restore_files e source_path dest_path (src_file # rest) w =
     (let rel_path = drop (length source_path) src_file;
          dst_file = dest_path @ rel_path
      in restore_files e source_path dest_path rest
           (case mkdir_parents e w (butlast dst_file) of
              Inl ex \<Rightarrow> add_log (ErrorRestoring src_file ex) w
            | Inr w1 \<Rightarrow>
                (case copy2 e w1 src_file dst_file of
                   Inl ex \<Rightarrow> add_log (ErrorRestoring src_file ex) w1
                 | Inr w2 \<Rightarrow> w2)))"

definition restore_browser :: "env \<Rightarrow> string \<Rightarrow> path \<Rightarrow> path \<Rightarrow> world \<Rightarrow> bool \<times> world" where
  "restore_browser e browser_name source_path dest_path w =
     (if stat_fault e source_path
      then (False, add_log (FailedToRestore browser_name (OSError source_path)) w)
      else if \<not> path_exists w source_path
      then (False, add_log (SourceDoesNotExist source_path) w)
      else if listing_fault e source_path
      then (False, add_log (FailedToRestore browser_name (OSError source_path)) w)
      else (True, restore_files e source_path dest_path (rglob_files w source_path) w))"

section \<open>The built-in configuration and a fault-free environment\<close>

text \<open>The built-in default of \<open>load_config\<close>, as the components read it.\<close>

definition default_cfg :: config where
  "default_cfg =
     \<lparr>max_workers = 4, verify_copies = True, compression = True, retention_days = 30,
      excluded_files = [''.lock'', ''Cache'', ''GPUCache'', ''CacheDictionary''],
      browsers = [(''chrome'', True), (''firefox'', True), (''edge'', True),
                  (''brave'', True), (''opera'', True), (''vivaldi'', True)],
      backup_options = [(''bookmarks'', True), (''history'', True), (''passwords'', True),
                        (''extensions'', True), (''cookies'', True), (''preferences'', True)]\<rparr>"

text \<open>The same configuration after the user has answered no to every data type.\<close>

definition nothing_selected_cfg :: config where
  "nothing_selected_cfg =
     default_cfg\<lparr>backup_options :=
       [(''bookmarks'', False), (''history'', False), (''passwords'', False),
        (''extensions'', False), (''cookies'', False), (''preferences'', False)]\<rparr>"

text \<open>An environment in which no call fails; the digest is the content itself.\<close>

definition no_faults :: env where
  "no_faults =
     \<lparr>sha256 = (\<lambda>s. s), copy_fault = (\<lambda>p. None), mkdir_fault = (\<lambda>p. False),
      open_fault = (\<lambda>p. False), stat_fault = (\<lambda>p. False), listing_fault = (\<lambda>p. False),
      rmtree_fault = (\<lambda>p. False), mtime = (\<lambda>p. 0)\<rparr>"

section \<open>Example worlds\<close>



text \<open>
  A backup root with five runs, at time 3000000: \<open>ancient\<close>, \<open>old\<close> (31 days) and
  \<open>older\<close> are past a retention of 30 days, \<open>edge\<close> is exactly 30 days old, \<open>new\<close> is
  29 days old.
\<close>

definition sweep_world :: world where
  "sweep_world =
     \<lparr>files = [([''backups'', ''old'', ''report''], ''r'')],
      dirs = [[''backups''], [''backups'', ''ancient''], [''backups'', ''old''],
              [''backups'', ''older''], [''backups'', ''edge''], [''backups'', ''new'']],
      log = []\<rparr>"

definition sweep_mtime :: "path \<Rightarrow> real" where
  "sweep_mtime p =
     (if p = [''backups'', ''old''] then 321600
      else if p = [''backups'', ''older''] then 100000
      else if p = [''backups'', ''edge''] then 408000
      else if p = [''backups'', ''new''] then 494400
      else 0)"

definition sweep_env :: env where
  "sweep_env = no_faults\<lparr>mtime := sweep_mtime\<rparr>"

text \<open>The same, except that \<open>shutil.rmtree\<close> raises on the run \<open>old\<close>.\<close>

definition rmtree_fails_env :: env where
  "rmtree_fails_env = sweep_env\<lparr>rmtree_fault := (\<lambda>p. p = [''backups'', ''old''])\<rparr>"

text \<open>A profile of three files, one of them named \<open>Cache\<close>.\<close>

definition profile_world :: world where
  "profile_world =
     \<lparr>files = [([''home'', ''chrome'', ''Bookmarks''], ''marks''),
               ([''home'', ''chrome'', ''Cache''], ''junk''),
               ([''home'', ''chrome'', ''History''], ''visits'')],
      dirs = [[''home''], [''home'', ''chrome'']],
      log = []\<rparr>"

text \<open>An environment in which every \<open>shutil.copy2\<close> raises.\<close>

definition copies_fail_env :: env where
  "copies_fail_env = no_faults\<lparr>copy_fault := (\<lambda>p. Some Raises)\<rparr>"

text \<open>A profile whose only file lies in a directory named \<open>Cache\<close>.\<close>

definition cache_dir_world :: world where
  "cache_dir_world =
     \<lparr>files = [([''home'', ''chrome'', ''Cache'', ''History''], ''visits'')],
      dirs = [[''home''], [''home'', ''chrome''], [''home'', ''chrome'', ''Cache'']],
      log = []\<rparr>"


text \<open>
  An environment in which \<open>shutil.copy2\<close> silently writes other bytes for the file
  \<open>Bookmarks\<close>.
\<close>

definition corrupt_env :: env where
  "corrupt_env =
     no_faults\<lparr>copy_fault :=
       (\<lambda>p. if p = [''home'', ''chrome'', ''Bookmarks''] then Some (Writes ''garbage'')
            else None)\<rparr>"

section \<open>Conditions on a run\<close>

text \<open>The keys that every family of the pattern table has.\<close>

definition data_types :: "string list" where
  "data_types =
     [''bookmarks'', ''history'', ''passwords'', ''extensions'', ''cookies'', ''preferences'']"

text \<open>
  Every key of \<open>backup_options\<close> is one of them, as in the built-in default and after
  the interactive selection; then the subscript in \<open>_should_backup_file\<close> cannot
  raise.
\<close>

definition options_known :: "config \<Rightarrow> bool" where
  "options_known cfg =
     list_all (\<lambda>(data_type, enabled). data_type \<in> set data_types) (backup_options cfg)"

text \<open>No copy, directory creation, existence test or listing fails.\<close>

definition fault_free :: "env \<Rightarrow> bool" where
  "fault_free e =
     (\<forall>p. copy_fault e p = None \<and> \<not> mkdir_fault e p \<and> \<not> stat_fault e p
          \<and> \<not> listing_fault e p)"

section \<open>What it means that a file was copied successfully\<close>

text \<open>
  The copy of one file succeeds in the world \<open>w\<close>: the directory is made,
  \<open>shutil.copy2\<close> returns, and \<open>verify_copy\<close> is true.
\<close>

definition file_copied_ok :: "config \<Rightarrow> env \<Rightarrow> world \<Rightarrow> path \<Rightarrow> path \<Rightarrow> path \<Rightarrow> bool" where
  "file_copied_ok cfg e w src_file dest_dir dst_file =
     (case mkdir_parents e w dest_dir of
        Inl ex \<Rightarrow> False
      | Inr w1 \<Rightarrow>
          (case copy2 e w1 src_file dst_file of
             Inl ex \<Rightarrow> False
           | Inr w2 \<Rightarrow> fst (verify_copy cfg e w2 src_file dst_file)))"

text \<open>
  During the loop over one source root some file is copied successfully: the loop runs
  through the files before it without leaving, the file passes both filters, and its
  copy succeeds in the world the loop has reached.
\<close>

definition copied_in_walk ::
  "config \<Rightarrow> env \<Rightarrow> string \<Rightarrow> path \<Rightarrow> path \<Rightarrow> (path \<times> string) list \<Rightarrow> bool \<times> world \<Rightarrow> bool" where
  "copied_in_walk cfg e browser_name source dest items st =
     (\<exists>before walk_root file after st1.
        items = before @ (walk_root, file) # after
        \<and> copy_files cfg e browser_name source dest before st = (None, st1)
        \<and> \<not> is_excluded cfg file
        \<and> should_backup_file cfg (str_path (drop (length source) walk_root @ [file])) browser_name
            = Inr True
        \<and> file_copied_ok cfg e (snd st1) (walk_root @ [file])
            (dest @ drop (length source) walk_root)
            (dest @ drop (length source) walk_root @ [file]))"


section \<open>FileSelector is fail-open\<close>

text \<open>
  Claim C3. When no data category of the configuration is enabled,
  \<open>_should_backup_file\<close> returns \<open>True\<close> for every file name and every browser
  type: an empty selection means everything.
\<close>

theorem should_backup_file_fail_open:
  assumes "\<forall>(data_type, enabled) \<in> set (backup_options cfg). \<not> enabled"
  shows "should_backup_file cfg file_name browser_type = Inr True"
proof -
  from assms have "\<not> list_ex (\<lambda>v. v) (map snd (backup_options cfg))"
    by (auto simp: list_ex_iff)
  then show ?thesis
    by (simp add: should_backup_file_def)
qed

theorem should_backup_file_fail_open_witness:
  "list_all (\<lambda>(data_type, enabled). \<not> enabled) (backup_options nothing_selected_cfg)
   \<and> should_backup_file nothing_selected_cfg ''Default/Cache/data_1'' ''chrome'' = Inr True"
proof -
  have h: "\<forall>(data_type, enabled) \<in> set (backup_options nothing_selected_cfg). \<not> enabled"
    by (simp add: nothing_selected_cfg_def)
  have "list_all (\<lambda>(data_type, enabled). \<not> enabled) (backup_options nothing_selected_cfg)"
    by (simp add: nothing_selected_cfg_def)
  with should_backup_file_fail_open [OF h] show ?thesis
    by simp
qed

section \<open>Configuration defaults\<close>

lemma dict_merge_missing:
  "k \<notin> fst ` set loaded \<Longrightarrow> map_of (dict_merge d loaded) k = map_of d k"
  unfolding dict_merge_def
  by (induction loaded arbitrary: d) (auto simp: update_conv')

text \<open>
  Claim C8. A field that the loaded file does not have keeps its built-in default, and a
  configuration file that is not JSON, cannot be opened, or holds a JSON value that is
  not an object makes \<open>load_config\<close> return the whole built-in default; no exception
  leaves \<open>load_config\<close>, which always returns a configuration.
\<close>

theorem load_config_defaults:
  "(k \<notin> fst ` set loaded \<longrightarrow>
      map_of (fst (load_config (Loaded (JObj loaded)) write_fails)) k = map_of default_config k)
   \<and> fst (load_config NotJSON write_fails) = default_config
   \<and> fst (load_config OpenFails write_fails) = default_config
   \<and> ((\<forall>obj. j \<noteq> JObj obj) \<longrightarrow> fst (load_config (Loaded j) write_fails) = default_config)"
  by (cases j) (simp_all add: load_config_def dict_merge_missing)

theorem load_config_defaults_witness:
  "''max_workers'' \<notin> fst ` set [(''retention_days'', JInt 7)]
   \<and> map_of (fst (load_config (Loaded (JObj [(''retention_days'', JInt 7)])) False))
         ''max_workers'' = Some (JInt 4)
   \<and> map_of (fst (load_config (Loaded (JObj [(''retention_days'', JInt 7)])) False))
         ''retention_days'' = Some (JInt 7)
   \<and> fst (load_config (Loaded (JArr [])) False) = default_config"
  using load_config_defaults [of "''max_workers''" "[(''retention_days'', JInt 7)]" False "JArr []"]
  by (simp add: default_config_def load_config_def dict_merge_def)

section \<open>One result per task\<close>






section \<open>The success flag of a restore\<close>

lemma restore_files_all_fail:
  "\<forall>p. copy_fault e p = Some Raises \<Longrightarrow>
   files (restore_files e source_path dest_path ps w) = files w"
proof (induction ps arbitrary: w)
  case Nil
  then show ?case by simp
next
  case (Cons p ps)
  then show ?case
    by (auto simp: Let_def mkdir_parents_def copy2_def add_log_def
             split: sum.splits option.splits)
qed

text \<open>
  Claim C10. \<open>restore_browser\<close> returns \<open>True\<close> exactly when the source path exists
  and nothing raises outside the \<open>try\<close> around a single file (the existence test and
  the listing of the backup), whatever happens to the copies. When every copy raises, it
  still returns \<open>True\<close> and no file has been restored.
\<close>

theorem restore_browser_success_flag:
  "(fst (restore_browser e browser_name source_path dest_path w)
      \<longleftrightarrow> \<not> stat_fault e source_path \<and> path_exists w source_path
          \<and> \<not> listing_fault e source_path)
   \<and> ((\<forall>p. copy_fault e p = Some Raises) \<and> \<not> stat_fault e source_path
        \<and> path_exists w source_path \<and> \<not> listing_fault e source_path
       \<longrightarrow> fst (restore_browser e browser_name source_path dest_path w)
           \<and> files (snd (restore_browser e browser_name source_path dest_path w)) = files w)"
  by (simp add: restore_browser_def restore_files_all_fail)

theorem restore_browser_success_flag_witness:
  "path_exists profile_world [''home'', ''chrome'']
   \<and> rglob_files profile_world [''home'', ''chrome'']
       = [[''home'', ''chrome'', ''Bookmarks''], [''home'', ''chrome'', ''Cache''],
          [''home'', ''chrome'', ''History'']]
   \<and> fst (restore_browser copies_fail_env ''chrome'' [''home'', ''chrome''] [''live'']
            profile_world)
   \<and> files (snd (restore_browser copies_fail_env ''chrome'' [''home'', ''chrome''] [''live'']
                   profile_world)) = files profile_world
   \<and> \<not> fst (restore_browser copies_fail_env ''chrome'' [''gone''] [''live''] profile_world)"
proof -
  have ex: "path_exists profile_world [''home'', ''chrome'']"
    by (simp add: path_exists_def is_dir_def profile_world_def)
  have nex: "\<not> path_exists profile_world [''gone'']"
    by (simp add: path_exists_def is_dir_def is_file_def profile_world_def)
  have ls: "rglob_files profile_world [''home'', ''chrome'']
       = [[''home'', ''chrome'', ''Bookmarks''], [''home'', ''chrome'', ''Cache''],
          [''home'', ''chrome'', ''History'']]"
    by (simp add: rglob_files_def profile_world_def)
  have env: "\<forall>p. copy_fault copies_fail_env p = Some Raises"
    "\<not> stat_fault copies_fail_env q" "\<not> listing_fault copies_fail_env q" for q
    by (simp_all add: copies_fail_env_def no_faults_def)
  from restore_browser_success_flag
         [of copies_fail_env "''chrome''" "[''home'', ''chrome'']" "[''live'']" profile_world]
       restore_browser_success_flag
         [of copies_fail_env "''chrome''" "[''gone'']" "[''live'']" profile_world]
       ex nex ls env
  show ?thesis by simp
qed

section \<open>The retention threshold\<close>

lemma prefix_same_length: "length xs = length ys \<Longrightarrow> prefix xs ys \<longleftrightarrow> xs = ys"
  by (auto simp: prefix_def)

lemma rmtree_is_dir:
  "rmtree e w x = Inr w1 \<Longrightarrow> is_dir w1 d \<longleftrightarrow> is_dir w d \<and> \<not> prefix x d"
  by (auto simp: rmtree_def is_dir_def split: if_splits)

lemma rmtree_ok: "\<not> rmtree_fault e x \<Longrightarrow> \<exists>w1. rmtree e w x = Inr w1"
  by (simp add: rmtree_def)

lemma is_dir_add_log [simp]: "is_dir (add_log l w) d = is_dir w d"
  by (simp add: is_dir_def add_log_def)

text \<open>
  The entries of one listing are siblings: they have the same length, so removing one
  leaves the others. In a sweep that meets no fault a directory survives exactly when it
  is not past the threshold.
\<close>

lemma sweep_siblings:
  assumes "\<forall>x \<in> set ds. length x = length d"
    and "\<forall>x \<in> set ds. \<not> stat_fault e x \<and> \<not> rmtree_fault e x"
  shows "fst (sweep e now r ds w) = None
         \<and> (is_dir (snd (sweep e now r ds w)) d
              \<longleftrightarrow> is_dir w d \<and> \<not> (d \<in> set ds \<and> now - mtime e d > r))"
  using assms
proof (induction ds arbitrary: w)
  case Nil
  then show ?case by simp
next
  case (Cons x ds)
  from Cons.prems
  have len: "length x = length d" and nof: "\<not> stat_fault e x" "\<not> rmtree_fault e x"
    by auto
  from Cons.prems have rest: "\<forall>x \<in> set ds. length x = length d"
    "\<forall>x \<in> set ds. \<not> stat_fault e x \<and> \<not> rmtree_fault e x" by auto
  note IH = Cons.IH [OF rest]
  show ?case
  proof (cases "is_dir w x \<and> now - mtime e x > r")
    case False
    with nof IH [of w] show ?thesis by auto
  next
    case True
    from rmtree_ok [OF nof(2)] obtain w1 where w1: "rmtree e w x = Inr w1" by blast
    from rmtree_is_dir [OF w1] len have d1: "is_dir w1 d \<longleftrightarrow> is_dir w d \<and> x \<noteq> d"
      by (simp add: prefix_same_length)
    from True nof w1 IH [of "add_log (RemovedOldBackup x) w1"] d1 show ?thesis
      by auto
  qed
qed

lemma iterdir_length: "x \<in> set (iterdir w parent) \<Longrightarrow> length x = Suc (length parent)"
  by (cases x rule: rev_cases) (auto simp: iterdir_def)



lemmas sweep_example_defs =
  cleanup_old_backups_def sweep_world_def sweep_env_def rmtree_fails_env_def no_faults_def
  sweep_mtime_def default_cfg_def iterdir_def is_dir_def path_exists_def rmtree_def
  add_log_def is_file_def


section \<open>A deletion that fails\<close>

lemma sweep_append:
  "sweep e now r (xs @ ys) w =
     (case sweep e now r xs w of
        (None, w1) \<Rightarrow> sweep e now r ys w1
      | (Some ex, w1) \<Rightarrow> (Some ex, w1))"
  by (induction xs arbitrary: w) (auto split: sum.splits)

lemma sweep_prefix_ok:
  assumes "\<forall>x \<in> set ds. \<not> stat_fault e x \<and> \<not> rmtree_fault e x"
  shows "fst (sweep e now r ds w) = None"
  using assms
proof (induction ds arbitrary: w)
  case Nil
  then show ?case by simp
next
  case (Cons x ds)
  then show ?case by (auto simp: rmtree_def)
qed

text \<open>
  Claim C6, as the code has it. The \<open>try\<close> of \<open>cleanup_old_backups\<close> encloses the
  whole loop. When \<open>shutil.rmtree\<close> raises on a directory past the threshold, the error
  is logged and \<open>cleanup_old_backups\<close> returns normally, with the directories listed
  before it swept; the loop has ended there, and every directory listed after the
  failing one is left as it was.
\<close>

theorem cleanup_old_backups_stops_at_failure:
  assumes "\<not> stat_fault e backup_root" and "path_exists w backup_root"
    and "\<not> listing_fault e backup_root"
    and "iterdir w backup_root = before @ failing # later"
    and "\<forall>x \<in> set before. \<not> stat_fault e x \<and> \<not> rmtree_fault e x"
    and "is_dir w failing" and "failing \<notin> set before"
    and "\<not> stat_fault e failing" and "rmtree_fault e failing"
    and "now - mtime e failing > real_of_int (retention_days cfg) * 86400"
  shows "cleanup_old_backups cfg e now backup_root w
           = add_log (ErrorCleaningUp (OSError failing))
               (snd (sweep e now (real_of_int (retention_days cfg * 24 * 60 * 60)) before w))
         \<and> (\<forall>d \<in> set later. d \<notin> set before \<longrightarrow>
               is_dir (cleanup_old_backups cfg e now backup_root w) d = is_dir w d)"
proof -
  let ?r = "real_of_int (retention_days cfg * 24 * 60 * 60)"
  have r: "?r = real_of_int (retention_days cfg) * 86400" by simp
  obtain err w1 where b: "sweep e now ?r before w = (err, w1)"
    by (cases "sweep e now ?r before w")
  with sweep_prefix_ok [OF assms(5), of now ?r w] have err: "err = None" by simp
  have mem: "failing \<in> set (iterdir w backup_root)" using assms(4) by simp
  have len: "\<forall>x \<in> set before. length x = length d"
    if "d \<in> set (iterdir w backup_root)" for d
    using iterdir_length [OF that] iterdir_length [of _ w backup_root] assms(4) by simp
  from sweep_siblings [OF len [OF mem] assms(5), of now ?r w] b assms(6,7)
  have "is_dir w1 failing" by simp
  with assms(8,9,10) r
  have "sweep e now ?r (failing # later) w1 = (Some (OSError failing), w1)"
    by (simp add: rmtree_def)
  with b err
  have "sweep e now ?r (iterdir w backup_root) w = (Some (OSError failing), w1)"
    by (simp add: assms(4) sweep_append)
  with assms(1,2,3) b
  have res: "cleanup_old_backups cfg e now backup_root w
           = add_log (ErrorCleaningUp (OSError failing)) (snd (sweep e now ?r before w))"
    by (simp add: cleanup_old_backups_def)
  have "is_dir (cleanup_old_backups cfg e now backup_root w) d = is_dir w d"
    if "d \<in> set later" "d \<notin> set before" for d
  proof -
    from that assms(4) have "d \<in> set (iterdir w backup_root)" by simp
    from sweep_siblings [OF len [OF this] assms(5), of now ?r w] that b res show ?thesis
      by simp
  qed
  with res show ?thesis by blast
qed

theorem cleanup_old_backups_stops_at_failure_witness:
  "iterdir sweep_world [''backups'']
     = [[''backups'', ''ancient'']] @ [''backups'', ''old'']
         # [[''backups'', ''older''], [''backups'', ''edge''], [''backups'', ''new'']]
   \<and> rmtree_fault rmtree_fails_env [''backups'', ''old'']
   \<and> 3000000 - mtime rmtree_fails_env [''backups'', ''old'']
       > real_of_int (retention_days default_cfg) * 86400
   \<and> log (cleanup_old_backups default_cfg rmtree_fails_env 3000000 [''backups''] sweep_world)
       = [RemovedOldBackup [''backups'', ''ancient''],
          ErrorCleaningUp (OSError [''backups'', ''old''])]
   \<and> is_dir (cleanup_old_backups default_cfg rmtree_fails_env 3000000 [''backups'']
               sweep_world) [''backups'', ''older'']"
proof -
  have h1: "\<not> stat_fault rmtree_fails_env [''backups'']"
    and h2: "path_exists sweep_world [''backups'']"
    and h3: "\<not> listing_fault rmtree_fails_env [''backups'']"
    by (simp_all add: rmtree_fails_env_def sweep_env_def no_faults_def path_exists_def
          is_dir_def sweep_world_def)
  have h4: "iterdir sweep_world [''backups'']
     = [[''backups'', ''ancient'']] @ [''backups'', ''old'']
         # [[''backups'', ''older''], [''backups'', ''edge''], [''backups'', ''new'']]"
    by (simp add: iterdir_def sweep_world_def)
  have h5: "\<forall>x \<in> set [[''backups'', ''ancient'']].
              \<not> stat_fault rmtree_fails_env x \<and> \<not> rmtree_fault rmtree_fails_env x"
    by (simp add: rmtree_fails_env_def sweep_env_def no_faults_def)
  have h6: "is_dir sweep_world [''backups'', ''old'']"
    by (simp add: is_dir_def sweep_world_def)
  have h7: "[''backups'', ''old''] \<notin> set [[''backups'', ''ancient'']]" by simp
  have h8: "\<not> stat_fault rmtree_fails_env [''backups'', ''old'']"
    and h9: "rmtree_fault rmtree_fails_env [''backups'', ''old'']"
    by (simp_all add: rmtree_fails_env_def sweep_env_def no_faults_def)
  have h10: "3000000 - mtime rmtree_fails_env [''backups'', ''old'']
       > real_of_int (retention_days default_cfg) * 86400"
    by (simp add: rmtree_fails_env_def sweep_env_def no_faults_def sweep_mtime_def
          default_cfg_def)
  have lg: "log (cleanup_old_backups default_cfg rmtree_fails_env 3000000 [''backups'']
                  sweep_world)
       = [RemovedOldBackup [''backups'', ''ancient''],
          ErrorCleaningUp (OSError [''backups'', ''old''])]"
    by (simp add: sweep_example_defs)
  have od: "is_dir sweep_world [''backups'', ''older'']"
    by (simp add: is_dir_def sweep_world_def)
  from conjunct2 [OF cleanup_old_backups_stops_at_failure
                       [OF h1 h2 h3 h4 h5 h6 h7 h8 h9 h10]] od
  have "is_dir (cleanup_old_backups default_cfg rmtree_fails_env 3000000 [''backups'']
               sweep_world) [''backups'', ''older'']"
    by simp
  with h4 h9 h10 lg show ?thesis by blast
qed

text \<open>
  The claim as the specification states it fails: \<open>older\<close> is past the threshold and
  its deletion would not fail, yet it is still there after the sweep, because the
  deletion of \<open>old\<close>, listed before it, raised.
\<close>

theorem cleanup_old_backups_failure_counterexample:
  "3000000 - mtime rmtree_fails_env [''backups'', ''older'']
     > real_of_int (retention_days default_cfg * 24 * 60 * 60)
   \<and> \<not> rmtree_fault rmtree_fails_env [''backups'', ''older'']
   \<and> \<not> stat_fault rmtree_fails_env [''backups'', ''older'']
   \<and> is_dir sweep_world [''backups'', ''older'']
   \<and> is_dir (cleanup_old_backups default_cfg rmtree_fails_env 3000000 [''backups'']
               sweep_world) [''backups'', ''older'']"
  by (simp add: sweep_example_defs)

section \<open>What a backup writes\<close>

lemma files_add_log [simp]: "files (add_log l w) = files w"
  by (simp add: add_log_def)

lemma dirs_add_log [simp]: "dirs (add_log l w) = dirs w"
  by (simp add: add_log_def)

lemma mkdir_parents_files: "mkdir_parents e w p = Inr w1 \<Longrightarrow> files w1 = files w"
  by (auto simp: mkdir_parents_def split: if_splits)

lemma copy2_files:
  "copy2 e w src dst = Inr w2 \<Longrightarrow> \<exists>c. files w2 = AList.update dst c (files w)"
  by (auto simp: copy2_def write_file_def split: option.splits fault.splits)

lemma verify_copy_files: "verify_copy cfg e w s d = (v, w') \<Longrightarrow> files w' = files w"
  by (auto simp: verify_copy_def split: sum.splits if_splits)

text \<open>The \<open>try\<close> block of one file changes no file but its own destination.\<close>

lemma copy_file_frame:
  "x \<noteq> dst_file \<Longrightarrow>
   map_of (files (snd (copy_file cfg e fname src_file dest_dir dst_file (ok, w)))) x
     = map_of (files w) x"
proof (cases "mkdir_parents e w dest_dir")
  case (Inl ex)
  then show ?thesis by (simp add: copy_file_def)
next
  case (Inr w1)
  note w1 = this
  assume x: "x \<noteq> dst_file"
  show ?thesis
  proof (cases "copy2 e w1 src_file dst_file")
    case (Inl ex)
    with w1 mkdir_parents_files [OF w1] show ?thesis by (simp add: copy_file_def)
  next
    case (Inr w2)
    from copy2_files [OF this] obtain c where "files w2 = AList.update dst_file c (files w1)"
      by blast
    with x mkdir_parents_files [OF w1] have "map_of (files w2) x = map_of (files w) x"
      by (simp add: update_conv')
    moreover
    have "files (snd (copy_file cfg e fname src_file dest_dir dst_file (ok, w))) = files w2"
      using w1 Inr by (auto simp: copy_file_def split: prod.splits dest: verify_copy_files)
    ultimately show ?thesis by simp
  qed
qed

lemma copy_files_frame:
  "\<forall>(walk_root, file) \<in> set items.
      \<not> is_excluded cfg file \<longrightarrow> x \<noteq> dest @ drop (length source) walk_root @ [file] \<Longrightarrow>
   map_of (files (snd (snd (copy_files cfg e b source dest items (ok, w))))) x
     = map_of (files w) x"
proof (induction items arbitrary: ok w)
  case Nil
  then show ?case by simp
next
  case (Cons it items)
  obtain walk_root fname where it: "it = (walk_root, fname)" by (cases it)
  from Cons.prems have rest: "\<forall>(walk_root, file) \<in> set items.
      \<not> is_excluded cfg file \<longrightarrow> x \<noteq> dest @ drop (length source) walk_root @ [file]"
    by simp
  note IH = Cons.IH [OF rest]
  show ?case
  proof (cases "is_excluded cfg fname")
    case True
    with it IH show ?thesis by simp
  next
    case False
    let ?dd = "dest @ drop (length source) walk_root"
    from False Cons.prems it have ne: "x \<noteq> ?dd @ [fname]" by simp
    obtain ok' w' where st:
      "copy_file cfg e fname (walk_root @ [fname]) ?dd (?dd @ [fname]) (ok, w) = (ok', w')"
      by (cases "copy_file cfg e fname (walk_root @ [fname]) ?dd (?dd @ [fname]) (ok, w)")
    from copy_file_frame [OF ne, of cfg e fname "walk_root @ [fname]" ?dd ok w] st
    have "map_of (files w') x = map_of (files w) x" by simp
    with False it st IH show ?thesis
      by (simp add: Let_def split: sum.splits bool.splits)
  qed
qed

lemma backup_sources_frame:
  "p \<noteq> [] \<Longrightarrow> is_excluded cfg (last p) \<Longrightarrow>
   map_of (files (snd (snd (backup_sources cfg e bbd b sps (ok, w))))) p = map_of (files w) p"
proof (induction sps arbitrary: ok w)
  case Nil
  then show ?case by simp
next
  case (Cons s sps)
  note IH = Cons.IH [OF Cons.prems]
  have fr: "map_of (files (snd (snd (copy_files cfg e b s dest items (ok, w1))))) p
              = map_of (files w1) p"
    for dest items w1
  proof (rule copy_files_frame, clarify)
    fix walk_root fname
    assume "\<not> is_excluded cfg fname" "p = dest @ drop (length s) walk_root @ [fname]"
    with Cons.prems show False by simp
  qed
  show ?case
  proof (cases "stat_fault e s \<or> \<not> path_exists w s")
    case True
    with IH show ?thesis by auto
  next
    case False
    show ?thesis
    proof (cases "mkdir_parents e w (bbd @ path_name s)")
      case (Inl ex)
      with False show ?thesis by simp
    next
      case (Inr w1)
      note w1 = this
      show ?thesis
      proof (cases "count_files cfg b (map snd (walk w1 s))")
        case (Inl ex)
        with False w1 mkdir_parents_files [OF w1] show ?thesis by simp
      next
        case (Inr n)
        obtain r ok' w' where cf:
          "copy_files cfg e b s (bbd @ path_name s) (walk w1 s) (ok, w1) = (r, ok', w')"
          by (cases "copy_files cfg e b s (bbd @ path_name s) (walk w1 s) (ok, w1)")
        with fr [of "bbd @ path_name s" "walk w1 s" w1] mkdir_parents_files [OF w1]
        have "map_of (files w') p = map_of (files w) p" by simp
        with False w1 Inr cf IH show ?thesis
          by (cases r) simp_all
      qed
    qed
  qed
qed

lemma validate_paths_update:
  "\<forall>(browser, ps) \<in> set acc. \<forall>p \<in> set ps. P p \<Longrightarrow>
   \<forall>(browser, ps) \<in> set (AList.update k (filter P xs) acc). \<forall>p \<in> set ps. P p"
  by (induction acc) auto

lemma validate_paths_sound:
  "(browser, ps) \<in> set (validate_paths cfg w paths) \<Longrightarrow> p \<in> set ps \<Longrightarrow>
     path_exists w p \<and> \<not> is_excluded cfg (str_path p)"
proof -
  let ?P = "\<lambda>path. path_exists w path \<and> \<not> is_excluded cfg (str_path path)"
  let ?f = "\<lambda>(browser, path_list) validated_paths.
             if \<not> (case map_of (browsers cfg) browser of None \<Rightarrow> True | Some b \<Rightarrow> b)
             then validated_paths
             else AList.update browser (filter ?P path_list) validated_paths"
  have inv: "\<forall>(browser, ps) \<in> set acc. \<forall>p \<in> set ps. ?P p \<Longrightarrow>
     \<forall>(browser, ps) \<in> set (fold ?f paths acc). \<forall>p \<in> set ps. ?P p" for acc
  proof (induction paths arbitrary: acc)
    case Nil
    then show ?case by simp
  next
    case (Cons a paths)
    obtain k xs where a: "a = (k, xs)" by (cases a)
    from validate_paths_update [of acc ?P k xs] Cons.prems
    have "\<forall>(browser, ps) \<in> set (?f a acc). \<forall>p \<in> set ps. ?P p"
      unfolding a by (simp split: if_splits)
    from Cons.IH [OF this] show ?case by simp
  qed
  assume "(browser, ps) \<in> set (validate_paths cfg w paths)" "p \<in> set ps"
  with inv [of "[]"] show ?thesis
    unfolding validate_paths_def by fastforce
qed

lemmas selector_defs =
  should_backup_file_def get_browser_data_patterns_def browser_family_def lower_def
  lower_char_def endswith_def drop_last2_def is_excluded_def

lemmas backup_defs =
  backup_browser_def path_exists_def is_dir_def is_file_def path_name_def mkdir_parents_def
  walk_def copy_file_def copy2_def write_file_def verify_copy_def read_file_def add_log_def

lemma select_Bookmarks: "should_backup_file default_cfg ''Bookmarks'' ''chrome'' = Inr True"
  by (simp add: selector_defs default_cfg_def)

lemma select_History: "should_backup_file default_cfg ''History'' ''chrome'' = Inr True"
  by (simp add: selector_defs default_cfg_def)

lemma select_Cache: "should_backup_file default_cfg ''Cache'' ''chrome'' = Inr False"
  by (simp add: selector_defs default_cfg_def)

lemma select_Cache_History:
  "should_backup_file default_cfg ''Cache/History'' ''chrome'' = Inr True"
  by (simp add: selector_defs default_cfg_def)

lemma excluded_names:
  "\<not> is_excluded default_cfg ''Bookmarks''" "\<not> is_excluded default_cfg ''History''"
  "is_excluded default_cfg ''Cache''"
  by (simp_all add: is_excluded_def default_cfg_def)

lemmas selector_examples =
  select_Bookmarks select_History select_Cache select_Cache_History excluded_names

section \<open>Files with an excluded name\<close>

text \<open>
  Claim C7, as the code has it. The loop of \<open>backup_browser\<close> tests the excluded
  substrings on the name of the file alone, and \<open>_validate_paths\<close> tests them on the
  path of a source root. A file whose own name contains an excluded substring is
  skipped: no file of such a name is created or changed anywhere by the invocation. A
  source root whose path contains an excluded substring is not in the validated paths.
\<close>

theorem backup_browser_skips_excluded_names:
  "(p \<noteq> [] \<and> is_excluded cfg (last p) \<longrightarrow>
      map_of (files (snd (backup_browser cfg e backup_root browser_name source_paths w))) p
        = map_of (files w) p)
   \<and> ((browser, ps) \<in> set (validate_paths cfg w paths) \<and> source \<in> set ps \<longrightarrow>
        \<not> is_excluded cfg (str_path source))"
proof -
  have "map_of (files (snd (backup_browser cfg e backup_root browser_name source_paths w))) p
        = map_of (files w) p" if "p \<noteq> []" "is_excluded cfg (last p)"
    using backup_sources_frame
            [OF that, of e "backup_root @ [browser_name]" browser_name source_paths False w]
    by (auto simp: backup_browser_def split: prod.splits option.splits)
  with validate_paths_sound [of browser ps cfg w paths source] show ?thesis
    by blast
qed


theorem backup_browser_skips_excluded_names_witness:
  "is_excluded default_cfg (last [''backups'', ''run'', ''chrome'', ''chrome'', ''Cache''])
   \<and> map_of (files (snd (backup_browser default_cfg no_faults [''backups'', ''run''] ''chrome''
                           [[''home'', ''chrome'']] profile_world)))
        [''backups'', ''run'', ''chrome'', ''chrome'', ''Cache''] = None
   \<and> validate_paths default_cfg cache_dir_world
        [(''chrome'', [[''home'', ''chrome''], [''home'', ''chrome'', ''Cache'']])]
       = [(''chrome'', [[''home'', ''chrome'']])]"
proof -
  have ex: "is_excluded default_cfg
              (last [''backups'', ''run'', ''chrome'', ''chrome'', ''Cache''])"
    by (simp add: excluded_names)
  have before: "map_of (files profile_world)
                  [''backups'', ''run'', ''chrome'', ''chrome'', ''Cache''] = None"
    by (simp add: profile_world_def)
  from backup_browser_skips_excluded_names
         [of "[''backups'', ''run'', ''chrome'', ''chrome'', ''Cache'']" default_cfg no_faults
             "[''backups'', ''run'']" "''chrome''" "[[''home'', ''chrome'']]" profile_world]
       ex before
  have one: "map_of (files (snd (backup_browser default_cfg no_faults [''backups'', ''run'']
                ''chrome'' [[''home'', ''chrome'']] profile_world)))
        [''backups'', ''run'', ''chrome'', ''chrome'', ''Cache''] = None"
    by simp
  have two: "validate_paths default_cfg cache_dir_world
        [(''chrome'', [[''home'', ''chrome''], [''home'', ''chrome'', ''Cache'']])]
       = [(''chrome'', [[''home'', ''chrome'']])]"
    by (simp add: validate_paths_def default_cfg_def cache_dir_world_def path_exists_def
          is_dir_def is_file_def is_excluded_def)
  from ex one two show ?thesis by blast
qed

text \<open>
  The claim as the specification states it fails for a file whose path, but not whose
  name, contains an excluded substring: \<open>Cache/History\<close> is copied.
\<close>

theorem backup_browser_excluded_path_counterexample:
  "is_excluded default_cfg (str_path [''Cache'', ''History''])
   \<and> is_excluded default_cfg (str_path [''home'', ''chrome'', ''Cache'', ''History''])
   \<and> map_of (files cache_dir_world)
        [''backups'', ''run'', ''chrome'', ''chrome'', ''Cache'', ''History''] = None
   \<and> map_of (files (snd (backup_browser default_cfg no_faults [''backups'', ''run''] ''chrome''
                           [[''home'', ''chrome'']] cache_dir_world)))
        [''backups'', ''run'', ''chrome'', ''chrome'', ''Cache'', ''History''] = Some ''visits''"
proof -
  have "is_excluded default_cfg (str_path [''Cache'', ''History''])"
    and "is_excluded default_cfg (str_path [''home'', ''chrome'', ''Cache'', ''History''])"
    by (simp_all add: is_excluded_def default_cfg_def)
  moreover
  have "map_of (files (snd (backup_browser default_cfg no_faults [''backups'', ''run'']
                              ''chrome'' [[''home'', ''chrome'']] cache_dir_world)))
        [''backups'', ''run'', ''chrome'', ''chrome'', ''Cache'', ''History''] = Some ''visits''"
    by (simp add: backup_defs cache_dir_world_def no_faults_def selector_examples Let_def)
  moreover
  have "map_of (files cache_dir_world)
        [''backups'', ''run'', ''chrome'', ''chrome'', ''Cache'', ''History''] = None"
    by (simp add: cache_dir_world_def)
  ultimately show ?thesis by blast
qed

section \<open>The success flag of a backup\<close>


lemma copied_in_walk_Nil [simp]: "\<not> copied_in_walk cfg e b source dest [] st"
  by (simp add: copied_in_walk_def)












section \<open>The selector does not raise on known options\<close>

lemma browser_family_cases:
  "browser_family b = ''firefox'' \<or> browser_family b = ''opera''
   \<or> browser_family b = ''chrome_based''"
  by (simp add: browser_family_def)

lemma family_table:
  "\<exists>by_type. map_of get_browser_data_patterns (browser_family b) = Some by_type
      \<and> (\<forall>k \<in> set data_types. map_of by_type k \<noteq> None)"
  using browser_family_cases [of b]
  by (auto simp: get_browser_data_patterns_def data_types_def)

lemma scan_options_total:
  assumes "map_of patterns family = Some by_type"
    and "\<forall>(k, en) \<in> set opts. map_of by_type k \<noteq> None"
  shows "\<exists>v. scan_options patterns family opts name = Inr v"
  using assms(2)
proof (induction opts)
  case Nil
  show ?case by (rule exI [of _ False]) simp
next
  case (Cons a opts)
  obtain k en where a: "a = (k, en)" by (cases a)
  from Cons obtain v where v: "scan_options patterns family opts name = Inr v" by auto
  from Cons.prems a obtain pats where pats: "map_of by_type k = Some pats" by auto
  show ?case
  proof (cases "en \<and> match_patterns pats name")
    case True
    with assms(1) a pats show ?thesis by (intro exI [of _ True]) simp
  next
    case False
    with assms(1) a pats v show ?thesis by (intro exI [of _ v]) auto
  qed
qed

lemma should_backup_file_total:
  assumes "options_known cfg"
  shows "\<exists>v. should_backup_file cfg name b = Inr v"
proof -
  from family_table [of b] obtain by_type where
    t: "map_of get_browser_data_patterns (browser_family b) = Some by_type"
    and k: "\<forall>k \<in> set data_types. map_of by_type k \<noteq> None" by blast
  from assms k have "\<forall>(k, en) \<in> set (backup_options cfg). map_of by_type k \<noteq> None"
    by (auto simp: options_known_def list_all_iff)
  from scan_options_total [OF t this, of name] show ?thesis
    by (auto simp: should_backup_file_def)
qed

lemma count_files_total:
  assumes "options_known cfg"
  shows "\<exists>n. count_files cfg b names = Inr n"
proof (induction names)
  case Nil
  then show ?case by simp
next
  case (Cons f names)
  from should_backup_file_total [OF assms, of f b] obtain v where
    "should_backup_file cfg f b = Inr v" by blast
  with Cons show ?case by auto
qed

lemma copy_files_total:
  assumes "options_known cfg"
  shows "fst (copy_files cfg e b source dest items st) = None"
proof (induction items arbitrary: st)
  case Nil
  then show ?case by simp
next
  case (Cons it items)
  obtain walk_root fname where it: "it = (walk_root, fname)" by (cases it)
  from should_backup_file_total [OF assms, of "str_path (drop (length source) walk_root @ [fname])" b]
  obtain v where "should_backup_file cfg (str_path (drop (length source) walk_root @ [fname])) b = Inr v"
    by blast
  with Cons.IH show ?case
    by (cases v) (simp_all add: it Let_def)
qed

section \<open>Where a selected file ends up\<close>

text \<open>
  A selected file whose own copy does not fail is at its destination after the loop over
  its source root, whatever happens to the other files; the loops over the other roots
  leave it there.
\<close>

lemma copy_file_delivers:
  assumes "\<not> mkdir_fault e dd" and "copy_fault e src = None"
    and "map_of (files w) src = Some c"
  shows "map_of (files (snd (copy_file cfg e fname src dd df (ok, w)))) df = Some c"
  using assms
  by (auto simp: copy_file_def mkdir_parents_def copy2_def write_file_def update_conv'
           split: prod.splits dest!: verify_copy_files)

lemma prefix_drop: "prefix s x \<Longrightarrow> s @ drop (length s) x = x"
  by (auto simp: prefix_def)

lemma dst_inj:
  assumes "prefix s a" and "prefix s b"
    and "dest @ drop (length s) a @ [f] = dest @ drop (length s) b @ [g]"
  shows "a = b \<and> f = g"
proof -
  from assms(3) have "drop (length s) a = drop (length s) b" and "f = g" by simp_all
  with prefix_drop [OF assms(1)] prefix_drop [OF assms(2)] show ?thesis by metis
qed

lemma copy_files_delivers:
  assumes tot: "options_known cfg"
    and sel: "\<not> is_excluded cfg f"
      "should_backup_file cfg (str_path (drop (length source) wr @ [f])) b = Inr True"
    and nofault: "\<not> mkdir_fault e (dest @ drop (length source) wr)"
      "copy_fault e (wr @ [f]) = None"
    and apart: "\<not> prefix dest (wr @ [f])"
    and under: "prefix source wr"
    and items: "\<forall>it \<in> set items. prefix source (fst it)"
    and src: "map_of (files w) (wr @ [f]) = Some c"
    and start: "(wr, f) \<in> set items
                \<or> map_of (files w) (dest @ drop (length source) wr @ [f]) = Some c"
  shows "map_of (files (snd (snd (copy_files cfg e b source dest items (ok, w)))))
           (wr @ [f]) = Some c
         \<and> map_of (files (snd (snd (copy_files cfg e b source dest items (ok, w)))))
             (dest @ drop (length source) wr @ [f]) = Some c"
  using items src start
proof (induction items arbitrary: ok w)
  case Nil
  then show ?case by simp
next
  case (Cons it items)
  obtain wr' f' where it: "it = (wr', f')" by (cases it)
  let ?dq = "dest @ drop (length source) wr @ [f]"
  let ?dd = "dest @ drop (length source) wr'"
  from Cons.prems(1) have rest: "\<forall>it \<in> set items. prefix source (fst it)"
    and under': "prefix source wr'" by (simp_all add: it)
  from should_backup_file_total [OF tot, of "str_path (drop (length source) wr' @ [f'])" b]
  obtain v where v: "should_backup_file cfg (str_path (drop (length source) wr' @ [f'])) b = Inr v"
    by blast
  show ?case
  proof (cases "\<not> is_excluded cfg f' \<and> v")
    case False
    with sel v have "(wr, f) \<noteq> it" by (auto simp: it)
    with Cons.prems(3) have "(wr, f) \<in> set items \<or> map_of (files w) ?dq = Some c" by auto
    from Cons.IH [OF rest Cons.prems(2) this, of ok] False v show ?thesis
      by (cases v) (auto simp: it Let_def)
  next
    case True
    let ?st = "copy_file cfg e f' (wr' @ [f']) ?dd (?dd @ [f']) (ok, w)"
    from True v have step: "copy_files cfg e b source dest (it # items) (ok, w)
                      = copy_files cfg e b source dest items ?st"
      by (simp add: it Let_def)
    from apart have "wr @ [f] \<noteq> ?dd @ [f']" by (auto simp: prefix_def)
    from copy_file_frame [OF this, of cfg e f' "wr' @ [f']" ?dd ok w] Cons.prems(2)
    have src': "map_of (files (snd ?st)) (wr @ [f]) = Some c" by simp
    have "(wr, f) \<in> set items \<or> map_of (files (snd ?st)) ?dq = Some c"
    proof (cases "it = (wr, f)")
      case True
      with it have eq: "wr' = wr" "f' = f" by simp_all
      from copy_file_delivers [OF nofault Cons.prems(2), of cfg f "?dd @ [f']" ok] eq
      show ?thesis by simp
    next
      case False
      with dst_inj [OF under under', of dest f f'] it have "?dq \<noteq> ?dd @ [f']" by auto
      from copy_file_frame [OF this, of cfg e f' "wr' @ [f']" ?dd ok w] Cons.prems(3) False
      show ?thesis by auto
    qed
    from Cons.IH [OF rest src' this, of "fst ?st"] step show ?thesis by simp
  qed
qed

lemma walk_member:
  "map_of (files w) (wr @ [f]) = Some c \<Longrightarrow> strict_prefix s (wr @ [f]) \<Longrightarrow>
   (wr, f) \<in> set (walk w s)"
proof -
  assume a: "map_of (files w) (wr @ [f]) = Some c" and b: "strict_prefix s (wr @ [f])"
  from a have "wr @ [f] \<in> set (map fst (files w))"
    by (metis map_of_SomeD set_zip_leftD zip_map_fst_snd)
  with b have "wr @ [f] \<in> set (filter (\<lambda>p. strict_prefix s p) (map fst (files w)))"
    by simp
  then have "(\<lambda>p. (butlast p, last p)) (wr @ [f]) \<in> set (walk w s)"
    unfolding walk_def set_map by (rule imageI)
  then show ?thesis by simp
qed

lemma walk_under: "it \<in> set (walk w s) \<Longrightarrow> prefix s (fst it)"
proof -
  assume "it \<in> set (walk w s)"
  then obtain p where "strict_prefix s p" and "fst it = butlast p"
    by (auto simp: walk_def)
  then show ?thesis
    by (cases p rule: rev_cases) (auto simp: strict_prefix_def)
qed

lemma mkdir_parents_is_dir:
  "mkdir_parents e w p = Inr w1 \<Longrightarrow> is_dir w1 d \<longleftrightarrow> is_dir w d \<or> prefix d p"
  by (auto simp: mkdir_parents_def is_dir_def split: if_splits)

lemma mkdir_parents_ok: "\<not> mkdir_fault e p \<Longrightarrow> \<exists>w1. mkdir_parents e w p = Inr w1"
  by (simp add: mkdir_parents_def)

lemma copy_file_grows:
  "(is_dir w x \<longrightarrow> is_dir (snd (copy_file cfg e fname src dd df (ok, w))) x)
   \<and> (is_file w x \<longrightarrow> is_file (snd (copy_file cfg e fname src dd df (ok, w))) x)"
  by (auto simp: copy_file_def mkdir_parents_def copy2_def write_file_def verify_copy_def
           add_log_def is_dir_def is_file_def update_conv'
           split: sum.splits option.splits fault.splits if_splits)

lemma copy_files_grows:
  "(is_dir w x \<longrightarrow> is_dir (snd (snd (copy_files cfg e b source dest items (ok, w)))) x)
   \<and> (is_file w x \<longrightarrow> is_file (snd (snd (copy_files cfg e b source dest items (ok, w)))) x)"
proof (induction items arbitrary: ok w)
  case Nil
  then show ?case by simp
next
  case (Cons it items)
  obtain wr' f' where it: "it = (wr', f')" by (cases it)
  let ?dd = "dest @ drop (length source) wr'"
  let ?st = "copy_file cfg e f' (wr' @ [f']) ?dd (?dd @ [f']) (ok, w)"
  from Cons.IH [of w ok] Cons.IH [of "snd ?st" "fst ?st"]
       copy_file_grows [where w = w and x = x and cfg = cfg and e = e and fname = f'
                          and src = "wr' @ [f']" and dd = ?dd and df = "?dd @ [f']"
                          and ok = ok]
  show ?case
    by (auto simp: it Let_def split: sum.splits bool.splits)
qed

lemma backup_sources_delivers:
  assumes tot: "options_known cfg"
    and sel: "\<not> is_excluded cfg f"
      "should_backup_file cfg (str_path (drop (length s) wr @ [f])) b = Inr True"
    and nofault: "\<not> mkdir_fault e (bbd @ path_name s @ drop (length s) wr)"
      "copy_fault e (wr @ [f]) = None"
    and apart: "\<not> prefix bbd (wr @ [f])"
    and under: "strict_prefix s (wr @ [f])"
    and s_ne: "s \<noteq> []"
    and roots: "\<forall>s' \<in> set sps. s' \<noteq> [] \<and> \<not> stat_fault e s'
                  \<and> \<not> mkdir_fault e (bbd @ path_name s') \<and> (last s' = last s \<longrightarrow> s' = s)"
    and src: "map_of (files w) (wr @ [f]) = Some c"
    and start: "(s \<in> set sps \<and> path_exists w s)
                \<or> (map_of (files w) (bbd @ path_name s @ drop (length s) wr @ [f]) = Some c
                    \<and> is_dir w bbd)"
  shows "fst (backup_sources cfg e bbd b sps (ok, w)) = None
         \<and> map_of (files (snd (snd (backup_sources cfg e bbd b sps (ok, w))))) (wr @ [f])
             = Some c
         \<and> map_of (files (snd (snd (backup_sources cfg e bbd b sps (ok, w)))))
             (bbd @ path_name s @ drop (length s) wr @ [f]) = Some c
         \<and> is_dir (snd (snd (backup_sources cfg e bbd b sps (ok, w)))) bbd"
  using roots src start
proof (induction sps arbitrary: ok w)
  case Nil
  then show ?case by simp
next
  case (Cons s' sps)
  let ?dq = "bbd @ path_name s @ drop (length s) wr @ [f]"
  let ?dest = "bbd @ path_name s'"
  from Cons.prems(1) have rest: "\<forall>s' \<in> set sps. s' \<noteq> [] \<and> \<not> stat_fault e s'
                  \<and> \<not> mkdir_fault e (bbd @ path_name s') \<and> (last s' = last s \<longrightarrow> s' = s)"
    and here: "s' \<noteq> []" "\<not> stat_fault e s'" "\<not> mkdir_fault e ?dest"
      "last s' = last s \<longrightarrow> s' = s"
    by simp_all
  from under have wr_under: "prefix s wr"
    by (metis walk_member walk_under fst_conv map_of_eq_Some_iff src)
  show ?case
  proof (cases "path_exists w s'")
    case False
    with Cons.prems(3) have "(s \<in> set sps \<and> path_exists w s)
                \<or> (map_of (files w) ?dq = Some c \<and> is_dir w bbd)" by auto
    from Cons.IH [OF rest Cons.prems(2) this, of ok] False here show ?thesis by simp
  next
    case True
    from mkdir_parents_ok [OF here(3), of w] obtain w1 where
      w1: "mkdir_parents e w ?dest = Inr w1" by blast
    from mkdir_parents_files [OF w1] have f1: "files w1 = files w" .
    from mkdir_parents_is_dir [OF w1] have d1: "is_dir w1 bbd"
      and dmono: "is_dir w x \<Longrightarrow> is_dir w1 x" for x by simp_all
    from f1 have fmono: "is_file w x \<Longrightarrow> is_file w1 x" for x by (simp add: is_file_def)
    from count_files_total [OF tot, of b "map snd (walk w1 s')"] obtain n where
      n: "count_files cfg b (map snd (walk w1 s')) = Inr n" by blast
    let ?run = "copy_files cfg e b s' ?dest (walk w1 s') (ok, w1)"
    from copy_files_total [OF tot, of e b s' ?dest "walk w1 s'" "(ok, w1)"]
    have none: "fst ?run = None" .
    with True here w1 n
    have step: "backup_sources cfg e bbd b (s' # sps) (ok, w)
                  = backup_sources cfg e bbd b sps (snd ?run)"
      by (cases ?run) simp
    from copy_files_grows [of w1 bbd cfg e b s' ?dest "walk w1 s'" ok] d1
    have d2: "is_dir (snd (snd ?run)) bbd" by simp
    have ex2: "path_exists (snd (snd ?run)) s" if "path_exists w s"
      using that copy_files_grows [of w1 s cfg e b s' ?dest "walk w1 s'" ok] dmono fmono
      by (auto simp: path_exists_def)
    have "map_of (files (snd (snd ?run))) (wr @ [f]) = Some c
          \<and> ((s \<in> set sps \<and> path_exists (snd (snd ?run)) s)
              \<or> (map_of (files (snd (snd ?run))) ?dq = Some c \<and> is_dir (snd (snd ?run)) bbd))"
    proof (cases "s' = s")
      case True
      from Cons.prems(2) f1 have src1: "map_of (files w1) (wr @ [f]) = Some c" by simp
      from walk_member [OF src1 under] have mem: "(wr, f) \<in> set (walk w1 s)" .
      have items: "\<forall>it \<in> set (walk w1 s). prefix s (fst it)"
        using walk_under by blast
      from apart have apart': "\<not> prefix (bbd @ path_name s) (wr @ [f])"
        by (auto simp: prefix_def)
      from nofault(1) have nf: "\<not> mkdir_fault e ((bbd @ path_name s) @ drop (length s) wr)"
        by simp
      from copy_files_delivers [OF tot sel nf nofault(2) apart' wr_under items src1,
                                 of ok] mem d2 True
      show ?thesis by simp
    next
      case False
      with here(4) have ne: "last s' \<noteq> last s" by blast
      have fr: "map_of (files (snd (snd ?run))) x = map_of (files w1) x"
        if "\<not> prefix ?dest x" for x
      proof (rule copy_files_frame, clarify)
        fix walk_root fname
        assume "x = ?dest @ drop (length s') walk_root @ [fname]"
        with that show False by (simp add: prefix_def)
      qed
      from apart have "\<not> prefix ?dest (wr @ [f])" by (auto simp: prefix_def)
      from fr [OF this] Cons.prems(2) f1
      have a: "map_of (files (snd (snd ?run))) (wr @ [f]) = Some c" by simp
      from ne here(1) s_ne have "\<not> prefix ?dest ?dq"
        by (simp add: path_name_def)
      from fr [OF this] f1
      have b: "map_of (files (snd (snd ?run))) ?dq = map_of (files w) ?dq" by simp
      from Cons.prems(3) False a b d2 ex2 show ?thesis by auto
    qed
    then have src2: "map_of (files (snd (snd ?run))) (wr @ [f]) = Some c"
      and start2: "(s \<in> set sps \<and> path_exists (snd (snd ?run)) s)
              \<or> (map_of (files (snd (snd ?run))) ?dq = Some c \<and> is_dir (snd (snd ?run)) bbd)"
      by simp_all
    from Cons.IH [OF rest src2 start2, of "fst (snd ?run)"] step show ?thesis by simp
  qed
qed

section \<open>One file's failure stays with that file\<close>

lemma backup_browser_no_abort:
  assumes "fst (backup_sources cfg e (backup_root @ [b]) b sps (False, w)) = None"
  shows "backup_browser cfg e backup_root b sps w
           = snd (backup_sources cfg e (backup_root @ [b]) b sps (False, w))"
  using assms by (auto simp: backup_browser_def split: prod.splits option.splits)

lemma options_known_default: "options_known default_cfg"
  by (simp add: options_known_def default_cfg_def data_types_def)

lemma fault_free_no_faults: "fault_free no_faults"
  by (simp add: fault_free_def no_faults_def)

lemma backup_corrupt:
  "backup_browser default_cfg corrupt_env [''backups'', ''run''] ''chrome''
       [[''home'', ''chrome'']] profile_world
     = (True,
        profile_world
          \<lparr>files := files profile_world
              @ [([''backups'', ''run'', ''chrome'', ''chrome'', ''Bookmarks''], ''garbage''),
                 ([''backups'', ''run'', ''chrome'', ''chrome'', ''History''], ''visits'')],
           dirs := dirs profile_world
              @ [[], [''backups''], [''backups'', ''run''], [''backups'', ''run'', ''chrome''],
                 [''backups'', ''run'', ''chrome'', ''chrome'']]\<rparr>)"
  by (simp add: backup_defs profile_world_def corrupt_env_def no_faults_def selector_examples
        Let_def)

text \<open>
  Claim C1, as the code has it. A failure of one file stays with that file: whatever
  \<open>shutil.copy2\<close> and \<open>verify_copy\<close> do to the other files of the task (an
  exception, other bytes written, a digest that differs), no exception leaves the loops
  of \<open>backup_browser\<close>, and every selected file whose own copy does not fail is at its
  destination, with its content, when \<open>backup_browser\<close> returns. The conditions are
  those under which the task runs at all: the option keys are known, the source roots
  can be tested and their destinations made, two different roots have different names,
  and the file does not lie inside the backup itself.
\<close>

theorem backup_browser_isolates_file_failures:
  assumes "options_known cfg"
    and "\<forall>s' \<in> set source_paths.
           s' \<noteq> [] \<and> \<not> stat_fault e s'
           \<and> \<not> mkdir_fault e (backup_root @ [browser_name] @ path_name s')
           \<and> (last s' = last source \<longrightarrow> s' = source)"
    and "source \<in> set source_paths" and "path_exists w source"
    and "strict_prefix source (walk_root @ [file])"
    and "map_of (files w) (walk_root @ [file]) = Some content"
    and "\<not> is_excluded cfg file"
    and "should_backup_file cfg (str_path (drop (length source) walk_root @ [file]))
           browser_name = Inr True"
    and "\<not> mkdir_fault e
             (backup_root @ [browser_name] @ path_name source @ drop (length source) walk_root)"
    and "copy_fault e (walk_root @ [file]) = None"
    and "\<not> prefix (backup_root @ [browser_name]) (walk_root @ [file])"
  shows "fst (backup_sources cfg e (backup_root @ [browser_name]) browser_name source_paths
                (False, w)) = None
         \<and> map_of (files (snd (backup_browser cfg e backup_root browser_name source_paths w)))
               (backup_root @ [browser_name] @ path_name source
                  @ drop (length source) walk_root @ [file])
             = Some content"
proof -
  let ?bbd = "backup_root @ [browser_name]"
  from assms(3,2) have ne: "source \<noteq> []" by blast
  have roots: "\<forall>s' \<in> set source_paths. s' \<noteq> [] \<and> \<not> stat_fault e s'
                  \<and> \<not> mkdir_fault e (?bbd @ path_name s')
                  \<and> (last s' = last source \<longrightarrow> s' = source)"
    using assms(2) by simp
  have nf: "\<not> mkdir_fault e (?bbd @ path_name source @ drop (length source) walk_root)"
    using assms(9) by simp
  from assms(3,4) have start: "(source \<in> set source_paths \<and> path_exists w source)
      \<or> (map_of (files w) (?bbd @ path_name source @ drop (length source) walk_root @ [file])
            = Some content \<and> is_dir w ?bbd)" by simp
  note d = backup_sources_delivers
             [OF assms(1) assms(7) assms(8) nf assms(10) assms(11) assms(5) ne roots assms(6)
                 start, of False]
  from d backup_browser_no_abort [of cfg e backup_root browser_name source_paths w]
  show ?thesis by simp
qed

theorem backup_browser_isolates_file_failures_witness:
  "options_known default_cfg
   \<and> copy_fault corrupt_env [''home'', ''chrome'', ''Bookmarks''] = Some (Writes ''garbage'')
   \<and> copy_fault corrupt_env [''home'', ''chrome'', ''History''] = None
   \<and> path_exists profile_world [''home'', ''chrome'']
   \<and> map_of (files profile_world) [''home'', ''chrome'', ''History''] = Some ''visits''
   \<and> map_of (files (snd (backup_browser default_cfg corrupt_env [''backups'', ''run'']
                           ''chrome'' [[''home'', ''chrome'']] profile_world)))
        [''backups'', ''run'', ''chrome'', ''chrome'', ''History''] = Some ''visits''"
proof -
  have h2: "\<forall>s' \<in> set [[''home'', ''chrome'']].
           s' \<noteq> [] \<and> \<not> stat_fault corrupt_env s'
           \<and> \<not> mkdir_fault corrupt_env ([''backups'', ''run''] @ [''chrome''] @ path_name s')
           \<and> (last s' = last [''home'', ''chrome''] \<longrightarrow> s' = [''home'', ''chrome''])"
    by (simp add: corrupt_env_def no_faults_def)
  have h3: "[''home'', ''chrome''] \<in> set [[''home'', ''chrome'']]" by simp
  have h4: "path_exists profile_world [''home'', ''chrome'']"
    by (simp add: path_exists_def is_dir_def profile_world_def)
  have h5: "strict_prefix [''home'', ''chrome''] ([''home'', ''chrome''] @ [''History''])"
    by simp
  have h6: "map_of (files profile_world) ([''home'', ''chrome''] @ [''History''])
              = Some ''visits''"
    by (simp add: profile_world_def)
  have h7: "\<not> is_excluded default_cfg ''History''" by (rule excluded_names)
  have h8: "should_backup_file default_cfg
              (str_path (drop (length [''home'', ''chrome'']) [''home'', ''chrome'']
                           @ [''History''])) ''chrome'' = Inr True"
    by (simp add: select_History)
  have h9: "\<not> mkdir_fault corrupt_env
             ([''backups'', ''run''] @ [''chrome''] @ path_name [''home'', ''chrome'']
                @ drop (length [''home'', ''chrome'']) [''home'', ''chrome''])"
    and h10: "copy_fault corrupt_env ([''home'', ''chrome''] @ [''History'']) = None"
    by (simp_all add: corrupt_env_def no_faults_def)
  have h11: "\<not> prefix ([''backups'', ''run''] @ [''chrome''])
                 ([''home'', ''chrome''] @ [''History''])"
    by simp
  have f: "copy_fault corrupt_env [''home'', ''chrome'', ''Bookmarks'']
             = Some (Writes ''garbage'')"
    by (simp add: corrupt_env_def no_faults_def)
  from backup_browser_isolates_file_failures
         [OF options_known_default h2 h3 h4 h5 h6 h7 h8 h9 h10 h11]
  have "map_of (files (snd (backup_browser default_cfg corrupt_env [''backups'', ''run'']
                           ''chrome'' [[''home'', ''chrome'']] profile_world)))
        [''backups'', ''run'', ''chrome'', ''chrome'', ''History''] = Some ''visits''"
    by (simp add: path_name_def)
  with options_known_default f h10 h4 h6 show ?thesis by simp
qed

text \<open>
  The claim as the specification states it fails in its first part: a digest that
  differs is recorded nowhere. \<open>verify_copy\<close> returns \<open>False\<close> without a log line,
  \<open>backup_browser\<close> then merely does not set its flag for this file; here the log is
  empty and the flag is true although the copy of \<open>Bookmarks\<close> differs from its
  source.
\<close>

theorem backup_browser_mismatch_counterexample:
  "verify_copies default_cfg
   \<and> map_of (files profile_world) [''home'', ''chrome'', ''Bookmarks''] = Some ''marks''
   \<and> map_of (files (snd (backup_browser default_cfg corrupt_env [''backups'', ''run'']
                           ''chrome'' [[''home'', ''chrome'']] profile_world)))
        [''backups'', ''run'', ''chrome'', ''chrome'', ''Bookmarks''] = Some ''garbage''
   \<and> sha256 corrupt_env ''garbage'' \<noteq> sha256 corrupt_env ''marks''
   \<and> log (snd (backup_browser default_cfg corrupt_env [''backups'', ''run''] ''chrome''
                  [[''home'', ''chrome'']] profile_world)) = []
   \<and> fst (backup_browser default_cfg corrupt_env [''backups'', ''run''] ''chrome''
            [[''home'', ''chrome'']] profile_world)"
  by (simp add: backup_corrupt)
     (simp add: default_cfg_def profile_world_def corrupt_env_def no_faults_def)

section \<open>Backup, then restore\<close>

lemma restore_step_frame:
  "x \<noteq> dst \<Longrightarrow>
   map_of (files (case mkdir_parents e w dd of
                    Inl ex \<Rightarrow> add_log (ErrorRestoring s ex) w
                  | Inr w1 \<Rightarrow>
                      (case copy2 e w1 s dst of
                         Inl ex \<Rightarrow> add_log (ErrorRestoring s ex) w1
                       | Inr w2 \<Rightarrow> w2))) x
     = map_of (files w) x"
  by (auto simp: mkdir_parents_def copy2_def write_file_def update_conv'
           split: sum.splits option.splits fault.splits if_splits)

lemma restore_step_delivers:
  "\<not> mkdir_fault e dd \<Longrightarrow> copy_fault e s = None \<Longrightarrow> map_of (files w) s = Some c \<Longrightarrow>
   map_of (files (case mkdir_parents e w dd of
                    Inl ex \<Rightarrow> add_log (ErrorRestoring s ex) w
                  | Inr w1 \<Rightarrow>
                      (case copy2 e w1 s dst of
                         Inl ex \<Rightarrow> add_log (ErrorRestoring s ex) w1
                       | Inr w2 \<Rightarrow> w2))) dst
     = Some c"
  by (auto simp: mkdir_parents_def copy2_def write_file_def update_conv'
           split: sum.splits option.splits fault.splits if_splits)

lemma restore_files_delivers:
  assumes nofault: "copy_fault e p = None"
      "\<not> mkdir_fault e (butlast (dest_path @ drop (length src) p))"
    and apart: "\<not> prefix dest_path p"
    and under: "prefix src p"
    and items: "\<forall>p' \<in> set ps. prefix src p'"
    and content: "map_of (files w) p = Some c"
    and start: "p \<in> set ps \<or> map_of (files w) (dest_path @ drop (length src) p) = Some c"
  shows "map_of (files (restore_files e src dest_path ps w)) p = Some c
         \<and> map_of (files (restore_files e src dest_path ps w))
             (dest_path @ drop (length src) p) = Some c"
  using items content start
proof (induction ps arbitrary: w)
  case Nil
  then show ?case by simp
next
  case (Cons p' ps)
  let ?dst = "dest_path @ drop (length src) p'"
  let ?dq = "dest_path @ drop (length src) p"
  let ?w = "case mkdir_parents e w (butlast ?dst) of
              Inl ex \<Rightarrow> add_log (ErrorRestoring p' ex) w
            | Inr w1 \<Rightarrow>
                (case copy2 e w1 p' ?dst of
                   Inl ex \<Rightarrow> add_log (ErrorRestoring p' ex) w1
                 | Inr w2 \<Rightarrow> w2)"
  from Cons.prems(1) have rest: "\<forall>p' \<in> set ps. prefix src p'" and under': "prefix src p'"
    by simp_all
  have step: "restore_files e src dest_path (p' # ps) w = restore_files e src dest_path ps ?w"
    by (simp add: Let_def)
  from apart have "p \<noteq> ?dst" by (auto simp: prefix_def)
  from restore_step_frame [OF this, where e = e and w = w and dd = "butlast ?dst" and s = p'] Cons.prems(2)
  have c': "map_of (files ?w) p = Some c" by simp
  have "p \<in> set ps \<or> map_of (files ?w) ?dq = Some c"
  proof (cases "p' = p")
    case True
    show ?thesis
      unfolding True
      using restore_step_delivers [where dst = ?dq, OF nofault(2,1) Cons.prems(2)]
      by (rule disjI2)
  next
    case False
    with prefix_drop [OF under] prefix_drop [OF under'] have "?dq \<noteq> ?dst"
      by (metis same_append_eq)
    from restore_step_frame [OF this, where e = e and w = w and dd = "butlast ?dst" and s = p'] Cons.prems(3) False
    show ?thesis by auto
  qed
  from Cons.IH [OF rest c' this] step show ?case by simp
qed

lemma rglob_member:
  "map_of (files w) p = Some c \<Longrightarrow> strict_prefix src p \<Longrightarrow> p \<in> set (rglob_files w src)"
  unfolding rglob_files_def
  by (auto dest!: map_of_SomeD intro!: image_eqI [where x = "(p, c)"])

lemma rglob_under: "p \<in> set (rglob_files w src) \<Longrightarrow> prefix src p"
  by (auto simp: rglob_files_def strict_prefix_def)

lemma restore_browser_delivers:
  assumes "fault_free e" and "is_dir w src"
    and "\<not> prefix dest_path src" and "\<not> prefix src dest_path"
    and "strict_prefix src p" and "map_of (files w) p = Some c"
  shows "fst (restore_browser e b src dest_path w)
         \<and> map_of (files (snd (restore_browser e b src dest_path w)))
             (dest_path @ drop (length src) p) = Some c"
proof -
  from assms(1) have ff: "copy_fault e x = None" "\<not> mkdir_fault e x" "\<not> stat_fault e x"
    "\<not> listing_fault e x" for x
    by (simp_all add: fault_free_def)
  from assms(2) ff have run: "restore_browser e b src dest_path w
           = (True, restore_files e src dest_path (rglob_files w src) w)"
    by (simp add: restore_browser_def path_exists_def)
  from assms(5) have under: "prefix src p" by (simp add: strict_prefix_def)
  have apart: "\<not> prefix dest_path p"
  proof
    assume "prefix dest_path p"
    with under have "prefix dest_path src \<or> prefix src dest_path"
      using prefix_same_cases by blast
    with assms(3,4) show False by blast
  qed
  have items: "\<forall>p' \<in> set (rglob_files w src). prefix src p'"
    using rglob_under by blast
  from rglob_member [OF assms(6,5)]
  have "p \<in> set (rglob_files w src)
        \<or> map_of (files w) (dest_path @ drop (length src) p) = Some c" by simp
  from restore_files_delivers [OF ff(1) ff(2) apart under items assms(6) this] run
  show ?thesis by simp
qed

text \<open>
  Claim C9. In an environment without faults, back a browser up and restore the backup
  directory of that browser into a destination that is apart from it. Every selected
  file of a source root is then below the destination, under the name of its root and
  its relative path, with the content it had at backup time, and every file that the
  backup contains is reproduced with its content; equal contents have equal digests.
  The statement holds for any destination, so for an empty one.
\<close>

theorem backup_then_restore_round_trip:
  assumes "fault_free e" and "options_known cfg"
    and "\<forall>s' \<in> set source_paths. s' \<noteq> [] \<and> (last s' = last source \<longrightarrow> s' = source)"
    and "source \<in> set source_paths" and "path_exists w source"
    and "strict_prefix source (walk_root @ [file])"
    and "map_of (files w) (walk_root @ [file]) = Some content"
    and "\<not> is_excluded cfg file"
    and "should_backup_file cfg (str_path (drop (length source) walk_root @ [file]))
           browser_name = Inr True"
    and "\<not> prefix (backup_root @ [browser_name]) (walk_root @ [file])"
    and "\<not> prefix dest_path (backup_root @ [browser_name])"
    and "\<not> prefix (backup_root @ [browser_name]) dest_path"
  shows "map_of (files (snd (restore_browser e browser_name (backup_root @ [browser_name])
                              dest_path
                              (snd (backup_browser cfg e backup_root browser_name
                                      source_paths w)))))
           (dest_path @ path_name source @ drop (length source) walk_root @ [file])
         = Some content
         \<and> (\<forall>p c. strict_prefix (backup_root @ [browser_name]) p
                  \<and> map_of (files (snd (backup_browser cfg e backup_root browser_name
                                          source_paths w))) p = Some c
               \<longrightarrow> map_of (files (snd (restore_browser e browser_name
                                         (backup_root @ [browser_name]) dest_path
                                         (snd (backup_browser cfg e backup_root browser_name
                                                 source_paths w)))))
                     (dest_path @ drop (length (backup_root @ [browser_name])) p) = Some c)"
proof -
  let ?bbd = "backup_root @ [browser_name]"
  let ?w1 = "snd (backup_browser cfg e backup_root browser_name source_paths w)"
  let ?dq = "?bbd @ path_name source @ drop (length source) walk_root @ [file]"
  from assms(1) have ff: "copy_fault e x = None" "\<not> mkdir_fault e x" "\<not> stat_fault e x"
    for x
    by (simp_all add: fault_free_def)
  from assms(4,3) have ne: "source \<noteq> []" by blast
  have roots: "\<forall>s' \<in> set source_paths. s' \<noteq> [] \<and> \<not> stat_fault e s'
                  \<and> \<not> mkdir_fault e (?bbd @ path_name s')
                  \<and> (last s' = last source \<longrightarrow> s' = source)"
    using assms(3) ff by simp
  from assms(4,5) have start: "(source \<in> set source_paths \<and> path_exists w source)
      \<or> (map_of (files w) ?dq = Some content \<and> is_dir w ?bbd)" by simp
  note d = backup_sources_delivers
             [OF assms(2) assms(8) assms(9) ff(2) ff(1) assms(10) assms(6) ne roots assms(7)
                 start, of False]
  from d backup_browser_no_abort [of cfg e backup_root browser_name source_paths w]
  have dq: "map_of (files ?w1) ?dq = Some content" and dir: "is_dir ?w1 ?bbd"
    by simp_all
  have every: "map_of (files (snd (restore_browser e browser_name ?bbd dest_path ?w1)))
                 (dest_path @ drop (length ?bbd) p) = Some c"
    if "strict_prefix ?bbd p" "map_of (files ?w1) p = Some c" for p c
    using restore_browser_delivers [OF assms(1) dir assms(11) assms(12) that] by simp
  have "strict_prefix ?bbd ?dq"
    using ne by (simp add: strict_prefix_def path_name_def)
  from every [OF this dq]
  have "map_of (files (snd (restore_browser e browser_name ?bbd dest_path ?w1)))
          (dest_path @ path_name source @ drop (length source) walk_root @ [file])
        = Some content"
    by simp
  with every show ?thesis by blast
qed

theorem backup_then_restore_round_trip_witness:
  "fault_free no_faults \<and> options_known default_cfg
   \<and> path_exists profile_world [''home'', ''chrome'']
   \<and> map_of (files profile_world) [''home'', ''chrome'', ''History''] = Some ''visits''
   \<and> map_of (files (snd (restore_browser no_faults ''chrome'' [''backups'', ''run'', ''chrome'']
                           [''live'']
                           (snd (backup_browser default_cfg no_faults [''backups'', ''run'']
                                   ''chrome'' [[''home'', ''chrome'']] profile_world)))))
        [''live'', ''chrome'', ''History''] = Some ''visits''"
proof -
  have h3: "\<forall>s' \<in> set [[''home'', ''chrome'']].
           s' \<noteq> [] \<and> (last s' = last [''home'', ''chrome''] \<longrightarrow> s' = [''home'', ''chrome''])"
    by simp
  have h4: "[''home'', ''chrome''] \<in> set [[''home'', ''chrome'']]" by simp
  have h5: "path_exists profile_world [''home'', ''chrome'']"
    by (simp add: path_exists_def is_dir_def profile_world_def)
  have h6: "strict_prefix [''home'', ''chrome''] ([''home'', ''chrome''] @ [''History''])"
    by simp
  have h7: "map_of (files profile_world) ([''home'', ''chrome''] @ [''History''])
              = Some ''visits''"
    by (simp add: profile_world_def)
  have h8: "\<not> is_excluded default_cfg ''History''" by (rule excluded_names)
  have h9: "should_backup_file default_cfg
              (str_path (drop (length [''home'', ''chrome'']) [''home'', ''chrome'']
                           @ [''History''])) ''chrome'' = Inr True"
    by (simp add: select_History)
  have h10: "\<not> prefix ([''backups'', ''run''] @ [''chrome''])
                 ([''home'', ''chrome''] @ [''History''])"
    and h11: "\<not> prefix [''live''] ([''backups'', ''run''] @ [''chrome''])"
    and h12: "\<not> prefix ([''backups'', ''run''] @ [''chrome'']) [''live'']"
    by simp_all
  from conjunct1 [OF backup_then_restore_round_trip
         [OF fault_free_no_faults options_known_default h3 h4 h5 h6 h7 h8 h9 h10 h11 h12]]
  have "map_of (files (snd (restore_browser no_faults ''chrome'' [''backups'', ''run'', ''chrome'']
                           [''live'']
                           (snd (backup_browser default_cfg no_faults [''backups'', ''run'']
                                   ''chrome'' [[''home'', ''chrome'']] profile_world)))))
        [''live'', ''chrome'', ''History''] = Some ''visits''"
    by (simp add: path_name_def)
  with fault_free_no_faults options_known_default h5 h7 show ?thesis by simp
qed

end
